theory Spec2Isabelle
  imports Complex_Main
begin

section \<open>JavaScript values used by the task tracker\<close>

text \<open>
  A JavaScript \<open>number\<close> is a double: \<open>NaN\<close> or a numeric value. Experience points,
  levels and level thresholds are whole numbers in this program (rewards are 100, 50 or 25,
  and every halving or threshold growth goes through \<open>Math.floor\<close>), so they carry an
  \<open>int\<close>; the engine's arithmetic on them is followed only as far as doubles compute it
  without rounding (see \<open>exact_int\<close> below). Percentages are quotients and products of
  doubles and are rounded as doubles are (\<open>to_double\<close>). Stopwatch seconds carry a \<open>rat\<close>.
  The infinities and the sign of zero are outside the model.
\<close>

datatype 'a jsnum = NaN | Num 'a

fun isNaN :: "'a jsnum \<Rightarrow> bool" where
  "isNaN NaN = True"
| "isNaN (Num _) = False"

text \<open>\<open>a + b\<close>, \<open>a - b\<close> on numbers: \<open>NaN\<close> is absorbing.\<close>

fun js_add :: "'a::plus jsnum \<Rightarrow> 'a jsnum \<Rightarrow> 'a jsnum" where
  "js_add (Num a) (Num b) = Num (a + b)"
| "js_add _ _ = NaN"

fun js_sub :: "'a::minus jsnum \<Rightarrow> 'a jsnum \<Rightarrow> 'a jsnum" where
  "js_sub (Num a) (Num b) = Num (a - b)"
| "js_sub _ _ = NaN"

text \<open>\<open>a >= b\<close>: every comparison with \<open>NaN\<close> is false.\<close>

fun js_ge :: "'a::ord jsnum \<Rightarrow> 'a jsnum \<Rightarrow> bool" where
  "js_ge (Num a) (Num b) = (b \<le> a)"
| "js_ge _ _ = False"

text \<open>\<open>Math.floor(n * 1.5)\<close> on a whole number \<open>n\<close>; 1.5 is exact in binary.\<close>

definition floor_x15 :: "int \<Rightarrow> int" where
  "floor_x15 n = \<lfloor>(of_int n :: rat) * (3 / 2)\<rfloor>"

text \<open>\<open>Math.round(x)\<close>: the nearest integer, a tie going up.\<close>

definition Math_round :: "rat \<Rightarrow> int" where
  "Math_round x = \<lfloor>x + 1 / 2\<rfloor>"

subsection \<open>Doubles\<close>

text \<open>
  A whole number of magnitude up to \<open>2^53\<close> is a double, and the sum or difference of two
  such numbers is computed without rounding when it is again of magnitude up to \<open>2^53\<close>.
  The product of such a number \<open>n\<close> by 1.5 is a multiple of one half; it is computed
  without rounding when \<open>3 * n\<close> is of magnitude up to \<open>2^53\<close>, since halves are doubles
  up to \<open>2^52\<close>.
\<close>

definition exact_int :: "int \<Rightarrow> bool" where
  "exact_int x = (\<bar>x\<bar> \<le> 2 ^ 53)"

text \<open>\<open>a + b\<close> is computed without rounding (a \<open>NaN\<close> operand gives \<open>NaN\<close>).\<close>

fun exact_sum :: "int jsnum \<Rightarrow> int jsnum \<Rightarrow> bool" where
  "exact_sum (Num a) (Num b) = (exact_int a \<and> exact_int b \<and> exact_int (a + b))"
| "exact_sum _ _ = True"

text \<open>The number of binary digits of a positive whole number.\<close>

function bit_length :: "int \<Rightarrow> int" where
  "bit_length n = (if n \<le> 0 then 0 else 1 + bit_length (n div 2))"
  by pat_completeness auto
termination
  by (relation "measure nat") auto

declare bit_length.simps [simp del]

definition pow2 :: "int \<Rightarrow> rat" where
  "pow2 e = (if 0 \<le> e then 2 ^ nat e else 1 / 2 ^ nat (- e))"

text \<open>The exponent \<open>e\<close> with \<open>2^e \<le> x < 2^(e+1)\<close>, for a positive \<open>x\<close>.\<close>

definition binade :: "rat \<Rightarrow> int" where
  "binade x =
     (case quotient_of x of
        (a, b) \<Rightarrow>
          (let g = bit_length a - bit_length b
           in if pow2 g \<le> x then g else g - 1))"

text \<open>Rounding to the nearest whole number, a tie going to the even one.\<close>

definition round_half_even :: "rat \<Rightarrow> int" where
  "round_half_even y =
     (let f = \<lfloor>y\<rfloor>; r = y - of_int f
      in if r < 1 / 2 then f
         else if 1 / 2 < r then f + 1
         else if even f then f else f + 1)"

text \<open>
  The double nearest to a value: 53 significant binary digits, spaced \<open>2^-1074\<close> at the
  bottom of the range, ties to even. It is what a quotient or a product of two doubles is
  stored as, below the overflow threshold near \<open>2^1024\<close>.
\<close>

definition to_double :: "rat \<Rightarrow> rat" where
  "to_double x =
     (if x = 0 then 0
      else (let e = max (binade \<bar>x\<bar> - 52) (- 1074)
            in of_int (round_half_even (x / pow2 e)) * pow2 e))"


section \<open>Data model (types.ts)\<close>

datatype TaskType = DAILY | QUEST | BOSS

datatype Priority = LOW | MEDIUM | HIGH

text \<open>
  An optional field \<open>f?: T\<close> is a \<open>T option\<close>, \<open>None\<close> standing for \<open>undefined\<close>.
  Date fields hold the strings the source stores; they are read through the platform's
  \<open>new Date(s).getTime()\<close>, a parameter \<open>getTime\<close> of the functions below whose result
  \<open>None\<close> stands for \<open>NaN\<close> (an invalid date), and written through
  \<open>new Date(ms).toISOString()\<close>, a parameter \<open>toISOString\<close>. Times are milliseconds
  since the epoch.
\<close>

record Task =
  id_task :: string
  title :: string
  description :: string
  completed :: bool
  exp_task :: int
  type_task :: TaskType
  priority :: Priority
  voiceNote :: "string option"
  reminder :: "string option"
  reminderFired :: "bool option"
  timeSpent :: "rat jsnum option"
  isRunning :: "bool option"
  lastUpdated :: "int option"
  completedAt :: "string option"
  deleted :: "bool option"
  deadline :: "string option"
  completedOnTime :: "bool option"

record MonkMode =
  isActive :: bool
  startDate :: "string option"
  endDate :: "string option"
  durationLabel :: string
  totalDays :: int
  minSuccessRate :: "int option"

datatype CharClass = Warrior | Mage | Rogue

record UserStats =
  level :: int
  currentExp :: "int jsnum"
  nextLevelExp :: int
  streak :: int
  class_user :: CharClass
  displayName :: "string option"
  avatar :: "string option"
  monkMode :: "MonkMode option"
  unlockedMonkModes :: "int list"

section \<open>Experience and levelling (useGameEngine)\<close>

text \<open>The user a fresh installation starts with, the same in both engines.\<close>

definition INITIAL_USER :: UserStats where
  "INITIAL_USER =
     \<lparr>level = 1, currentExp = Num 0, nextLevelExp = 100, streak = 0, class_user = Rogue,
      displayName = Some [], avatar = Some [],
      monkMode = Some \<lparr>isActive = False, startDate = None, endDate = None,
                       durationLabel = [], totalDays = 0, minSuccessRate = Some 50\<rparr>,
      unlockedMonkModes = []\<rparr>"

text \<open>
  The level-up loop of \<open>addExp\<close>:
  \<^verbatim>\<open>while (currentExp >= nextLevelExp) {
     currentExp -= nextLevelExp; level++; nextLevelExp = Math.floor(nextLevelExp * 1.5); }\<close>
  The loop does not end for every input (a threshold of 0 is never exhausted), so it is a
  partial function. The loop variables \<open>cur\<close>, \<open>lvl\<close>, \<open>nxt\<close> are the source's
  \<open>currentExp\<close>, \<open>level\<close>, \<open>nextLevelExp\<close>. A round is followed when its three results
  are computed without rounding (\<open>exact_round\<close>). \<open>None\<close> is the absence of a result: the
  loop runs forever, or a round leaves the whole numbers that doubles compute exactly and
  the model does not say what the source computes.
\<close>

definition exact_round :: "int jsnum \<Rightarrow> int \<Rightarrow> int \<Rightarrow> bool" where
  "exact_round cur lvl nxt =
     (exact_sum cur (Num (- nxt)) \<and> exact_sum (Num lvl) (Num 1) \<and> exact_int (3 * nxt))"

partial_function (option) levelUpLoop ::
  "int jsnum \<Rightarrow> int \<Rightarrow> int \<Rightarrow> (int jsnum \<times> int \<times> int) option" where
  "levelUpLoop cur lvl nxt =
     (if js_ge cur (Num nxt)
      then (if exact_round cur lvl nxt
            then levelUpLoop (js_sub cur (Num nxt)) (lvl + 1) (floor_x15 nxt)
            else None)
      else Some (cur, lvl, nxt))"

declare levelUpLoop.simps [code]

text \<open>
  \<open>addExp\<close> of hooks/useGameEngine.ts (the localStorage engine): the amount is added first,
  a \<open>NaN\<close> sum is then replaced by 0, and the loop runs.
\<close>

definition addExp :: "int jsnum \<Rightarrow> UserStats \<Rightarrow> UserStats option" where
  "addExp amount prev =
     (if exact_sum (currentExp prev) amount
      then (let currentExp0 = js_add (currentExp prev) amount;
                currentExp1 = (if isNaN currentExp0 then Num 0 else currentExp0)
            in map_option
                 (\<lambda>(c, l, n). prev\<lparr>level := l, currentExp := c, nextLevelExp := n\<rparr>)
                 (levelUpLoop currentExp1 (level prev) (nextLevelExp prev)))
      else None)"

text \<open>
  The object-store engine reads the singleton of key \<open>user\<close> and works from
  \<open>INITIAL_USER\<close> while there is none.
\<close>

definition userStats_of :: "UserStats option \<Rightarrow> UserStats" where
  "userStats_of userStatsRaw = (case userStatsRaw of None \<Rightarrow> INITIAL_USER | Some u \<Rightarrow> u)"

text \<open>
  \<open>addExp\<close> of the object-store engine. The callback is built at render time and computes
  from the \<open>userStats\<close> it captured then: the same loop, with no \<open>NaN\<close> check. It ends with
  \<open>db.userStats.update('user', {level, currentExp, nextLevelExp})\<close>, which rewrites the
  three fields of the singleton stored at the time of the call and does nothing when there
  is none. The state is the stored singleton.
\<close>

definition addExp_closure ::
  "int jsnum \<Rightarrow> UserStats \<Rightarrow> UserStats option \<Rightarrow> UserStats option option" where
  "addExp_closure amount userStats stored =
     (if exact_sum (currentExp userStats) amount
      then map_option
             (\<lambda>(c, l, n).
                map_option (\<lambda>u. u\<lparr>level := l, currentExp := c, nextLevelExp := n\<rparr>) stored)
             (levelUpLoop (js_add (currentExp userStats) amount) (level userStats)
                (nextLevelExp userStats))
      else None)"

text \<open>A call through a callback built from the singleton that is stored now.\<close>

definition addExp_db :: "int jsnum \<Rightarrow> UserStats option \<Rightarrow> UserStats option option" where
  "addExp_db amount userStatsRaw =
     addExp_closure amount (userStats_of userStatsRaw) userStatsRaw"







section \<open>Quest board: completion and soft delete (TaskDashboard)\<close>

text \<open>
  The state the two handlers read and write: the task list (\<open>tasks\<close>/\<open>setTasks\<close>), the ids
  whose completion animation is running, the mounted flag, the id awaiting delete
  confirmation, and the arguments the \<open>onAddExp\<close> callback has been called with, oldest first.
\<close>

record Dashboard =
  tasks :: "Task list"
  finishingTaskIds :: "string list"
  isMounted :: bool
  taskToDelete :: "string option"
  onAddExp_calls :: "int list"

text \<open>\<open>Math.floor(task.exp / 2)\<close>.\<close>

definition floor_half :: "int \<Rightarrow> int" where
  "floor_half e = \<lfloor>(of_int e :: rat) / 2\<rfloor>"

text \<open>
  The deadline check of \<open>handleCompleteTask\<close>, made when the user clicks: the pair
  \<open>(earnedExp, isOnTime)\<close>.
\<close>

definition deadline_check :: "(string \<Rightarrow> int option) \<Rightarrow> int \<Rightarrow> Task \<Rightarrow> int \<times> bool" where
  "deadline_check getTime now task =
     (case deadline task of
        None \<Rightarrow> (exp_task task, True)
      | Some dl \<Rightarrow>
          if dl = [] then (exp_task task, True)
          else (case getTime dl of
                  None \<Rightarrow> (exp_task task, True)
                | Some deadlineDate \<Rightarrow>
                    if now > deadlineDate then (floor_half (exp_task task), False)
                    else (exp_task task, True)))"

text \<open>
  The specification's "late": the task has a deadline, and the deadline lies before the
  time \<open>now\<close> at which the user completes the task.
\<close>

definition deadline_passed :: "(string \<Rightarrow> int option) \<Rightarrow> int \<Rightarrow> Task \<Rightarrow> bool" where
  "deadline_passed getTime now task =
     (case deadline task of
        None \<Rightarrow> False
      | Some dl \<Rightarrow> dl \<noteq> [] \<and> (case getTime dl of None \<Rightarrow> False | Some dd \<Rightarrow> dd < now))"

text \<open>
  The callback that runs 1200 ms after the click, at time \<open>later\<close>: award, rewrite every task
  of that id, end the animation if the component is still mounted.
\<close>

definition completion_callback ::
  "(int \<Rightarrow> string) \<Rightarrow> int \<Rightarrow> string \<Rightarrow> int \<Rightarrow> bool \<Rightarrow> Dashboard \<Rightarrow> Dashboard" where
  "completion_callback toISOString later ident earnedExp isOnTime d =
     d\<lparr>onAddExp_calls := onAddExp_calls d @ [earnedExp],
       tasks := map (\<lambda>t. if id_task t = ident
                          then t\<lparr>completed := True,
                                 completedAt := Some (toISOString later),
                                 isRunning := Some False,
                                 lastUpdated := None,
                                 completedOnTime := Some isOnTime,
                                 exp_task := earnedExp\<rparr>
                          else t) (tasks d),
       finishingTaskIds :=
         (if isMounted d then filter (\<lambda>taskId. taskId \<noteq> ident) (finishingTaskIds d)
          else finishingTaskIds d)\<rparr>"

text \<open>
  \<open>handleCompleteTask\<close>: the click at time \<open>now\<close> followed by its callback at time \<open>later\<close>,
  nothing else happening in between.
\<close>

definition handleCompleteTask ::
  "(string \<Rightarrow> int option) \<Rightarrow> (int \<Rightarrow> string) \<Rightarrow> int \<Rightarrow> int \<Rightarrow> string \<Rightarrow> Dashboard \<Rightarrow> Dashboard" where
  "handleCompleteTask getTime toISOString now later ident d =
     (if ident \<in> set (finishingTaskIds d) then d
      else case find (\<lambda>t. id_task t = ident) (tasks d) of
             None \<Rightarrow> d
           | Some task \<Rightarrow>
               if completed task then d
               else (case deadline_check getTime now task of
                       (earnedExp, isOnTime) \<Rightarrow>
                         completion_callback toISOString later ident earnedExp isOnTime
                           (d\<lparr>finishingTaskIds := finishingTaskIds d @ [ident]\<rparr>)))"

definition initiateDelete :: "string \<Rightarrow> Dashboard \<Rightarrow> Dashboard" where
  "initiateDelete ident d = d\<lparr>taskToDelete := Some ident\<rparr>"

text \<open>\<open>confirmDelete\<close> at time \<open>now\<close>: the soft delete of every task of the pending id.\<close>

definition confirmDelete :: "(int \<Rightarrow> string) \<Rightarrow> int \<Rightarrow> Dashboard \<Rightarrow> Dashboard" where
  "confirmDelete toISOString now d =
     (case taskToDelete d of
        None \<Rightarrow> d
      | Some ident \<Rightarrow>
          if ident = [] then d
          else d\<lparr>tasks := map (\<lambda>t. if id_task t = ident
                                    then t\<lparr>deleted := Some True,
                                           completedAt := Some (toISOString now),
                                           isRunning := Some False,
                                           lastUpdated := None\<rparr>
                                    else t) (tasks d),
                 taskToDelete := None\<rparr>)"

section \<open>Profile: statistics\<close>

definition completedTasks :: "Task list \<Rightarrow> nat" where
  "completedTasks ts = length (filter completed ts)"

definition abandonedTasks :: "Task list \<Rightarrow> nat" where
  "abandonedTasks ts = length (filter (\<lambda>t. deleted t = Some True) ts)"

text \<open>\<open>t.completed && t.completedOnTime !== false\<close>.\<close>

definition onTimeTask :: "Task \<Rightarrow> bool" where
  "onTimeTask t = (completed t \<and> completedOnTime t \<noteq> Some False)"

definition onTimeQuests :: "Task list \<Rightarrow> nat" where
  "onTimeQuests ts = length (filter onTimeTask ts)"

text \<open>
  \<open>Math.round((part / whole) * 100)\<close> on two counts: the quotient and the product are
  each stored as a double, and \<open>Math.round\<close> is exact on the double it is given.
\<close>

definition percent :: "nat \<Rightarrow> nat \<Rightarrow> int" where
  "percent part whole =
     Math_round (to_double (to_double (of_nat part / of_nat whole) * 100))"

definition successRate :: "Task list \<Rightarrow> int" where
  "successRate ts =
     (let totalAttempts = completedTasks ts + abandonedTasks ts
      in if totalAttempts > 0 then percent (onTimeQuests ts) totalAttempts else 100)"


text \<open>The filter of \<open>getSessionStats\<close>: a task finished or abandoned after \<open>startDate\<close>.\<close>

definition inSession :: "(string \<Rightarrow> int option) \<Rightarrow> int \<Rightarrow> Task \<Rightarrow> bool" where
  "inSession getTime start t =
     (case completedAt t of
        None \<Rightarrow> False
      | Some ca \<Rightarrow>
          if ca = [] then False
          else (case getTime ca of
                  None \<Rightarrow> False
                | Some completedDate \<Rightarrow>
                    (completed t \<or> deleted t = Some True) \<and> completedDate > start))"




text \<open>
  The filter of one bar of the 7-day graph; \<open>dayStart\<close> and \<open>dayEnd\<close> are the first and the
  last millisecond of the local calendar day, which the platform's \<open>Date\<close> computes.
\<close>

definition dayTasks :: "(string \<Rightarrow> int option) \<Rightarrow> int \<Rightarrow> int \<Rightarrow> Task list \<Rightarrow> Task list" where
  "dayTasks getTime dayStart dayEnd ts =
     filter (\<lambda>t. case completedAt t of
                   None \<Rightarrow> False
                 | Some ca \<Rightarrow>
                     if ca = [] then False
                     else (case getTime ca of
                             None \<Rightarrow> False
                           | Some tTime \<Rightarrow> tTime \<ge> dayStart \<and> tTime \<le> dayEnd)) ts"

definition dayRate :: "(string \<Rightarrow> int option) \<Rightarrow> int \<Rightarrow> int \<Rightarrow> Task list \<Rightarrow> int \<times> nat" where
  "dayRate getTime dayStart dayEnd ts =
     (let dts = dayTasks getTime dayStart dayEnd ts
      in if length dts = 0 then (0, 0)
         else (percent (length (filter onTimeTask dts)) (length dts), length dts))"

section \<open>Profile: Monk Mode\<close>


text \<open>What the component shows the user through \<open>alert\<close>.\<close>

datatype Alert =
    ProtocolComplete string
  | ImportSucceeded
  | ImportFailed

text \<open>
  The state of the Profile component: the \<open>stats\<close> it is given and writes back through
  \<open>updateStats\<close>, its two flags, the time at which the pending breach timer fires (\<open>None\<close>
  when no timer is pending), and the alerts shown so far, oldest first.
\<close>

record Profile =
  stats :: UserStats
  confirmBreach :: bool
  showFailureDialog :: bool
  breachTimeout :: "int option"
  alerts :: "Alert list"

text \<open>
  \<open>updateStats(prev => ({...prev, monkMode: {...prev.monkMode!, isActive: false}}))\<close>.
  Where \<open>monkMode\<close> is absent the source stores an object holding nothing but
  \<open>isActive: false\<close>; the model keeps it absent, which reads the same through
  \<open>stats.monkMode?.isActive\<close>.
\<close>

definition deactivate :: "UserStats \<Rightarrow> UserStats" where
  "deactivate prev = prev\<lparr>monkMode := map_option (\<lambda>m. m\<lparr>isActive := False\<rparr>) (monkMode prev)\<rparr>"

text \<open>\<open>stats.monkMode?.isActive\<close>.\<close>

definition monkActive :: "UserStats \<Rightarrow> bool" where
  "monkActive s = (case monkMode s of None \<Rightarrow> False | Some m \<Rightarrow> isActive m)"






text \<open>
  \<open>handleBreachClick\<close> at time \<open>now\<close>. Arming replaces any pending timer by one that fires
  3000 ms later; committing leaves the pending timer alone.
\<close>

definition handleBreachClick :: "int \<Rightarrow> Profile \<Rightarrow> Profile" where
  "handleBreachClick now p =
     (if confirmBreach p
      then p\<lparr>stats := deactivate (stats p), confirmBreach := False\<rparr>
      else p\<lparr>confirmBreach := True, breachTimeout := Some (now + 3000)\<rparr>)"

text \<open>
  The timer callback \<open>setConfirmBreach(false)\<close>, run by the event loop once the clock has
  reached the pending timer's time.
\<close>

definition runTimers :: "int \<Rightarrow> Profile \<Rightarrow> Profile" where
  "runTimers now p =
     (case breachTimeout p of
        None \<Rightarrow> p
      | Some due \<Rightarrow>
          if due \<le> now then p\<lparr>confirmBreach := False, breachTimeout := None\<rparr> else p)"

text \<open>A click on the breach button at time \<open>now\<close>: due timers first, then the handler.\<close>

definition breachClickAt :: "int \<Rightarrow> Profile \<Rightarrow> Profile" where
  "breachClickAt now p = handleBreachClick now (runTimers now p)"

section \<open>Startup load of the task list (useGameEngine, localStorage engine)\<close>

text \<open>
  What \<open>localStorage.getItem('taskquest_tasks')\<close> holds: nothing, the empty string, text that
  \<open>JSON.parse\<close> rejects, JSON that is not an array, or an array of tasks.
\<close>

datatype StoredItem = NoItem | EmptyItem | BadJson | NonArray | TaskArray "Task list"

text \<open>What the hook's state is initialised with: an array of tasks or some other JSON value.\<close>

datatype Loaded = OtherValue | Tasks "Task list"

text \<open>
  The callback of \<open>parsed.map\<close> in the initializer ("Smart Recovery"). A missing \<open>id\<close> or
  \<open>title\<close> is the empty string (both are falsy); \<open>lastUpdated\<close> is truthy when present and
  not 0, and then a number, as its type says.
\<close>

definition recoverTask :: "int \<Rightarrow> Task \<Rightarrow> Task" where
  "recoverTask now t =
     (if id_task t = [] \<or> title t = [] then t
      else (case (isRunning t, lastUpdated t) of
              (Some True, Some last_upd) \<Rightarrow>
                if last_upd \<noteq> 0
                then (let delta = (of_int (now - last_upd) :: rat) / 1000;
                          safeDelta = (if delta > 0 \<and> delta < 31536000 then delta else 0);
                          currentSpent = (case timeSpent t of Some (Num v) \<Rightarrow> v | _ \<Rightarrow> 0)
                      in t\<lparr>timeSpent := Some (Num (currentSpent + safeDelta)),
                           lastUpdated := Some now\<rparr>)
                else (case timeSpent t of Some (Num v) \<Rightarrow> t | _ \<Rightarrow> t\<lparr>timeSpent := Some (Num 0)\<rparr>)
            | _ \<Rightarrow> (case timeSpent t of Some (Num v) \<Rightarrow> t | _ \<Rightarrow> t\<lparr>timeSpent := Some (Num 0)\<rparr>)))"

text \<open>The initializer passed to \<open>usePersistent\<close>; it reads the stored item itself.\<close>

definition tasksInitializer :: "StoredItem \<Rightarrow> int \<Rightarrow> Task list" where
  "tasksInitializer stored now =
     (case stored of
        NoItem \<Rightarrow> []
      | EmptyItem \<Rightarrow> []
      | BadJson \<Rightarrow> []
      | NonArray \<Rightarrow> []
      | TaskArray parsed \<Rightarrow> map (recoverTask now) parsed)"

text \<open>
  \<open>usePersistent\<close>, at the key of the task list:
  \<^verbatim>\<open>const item = localStorage.getItem(key);
  return item ? JSON.parse(item) : init();\<close>
  with \<open>init()\<close> again when \<open>JSON.parse\<close> throws.
\<close>

definition usePersistent :: "StoredItem \<Rightarrow> (unit \<Rightarrow> Task list) \<Rightarrow> Loaded" where
  "usePersistent item init =
     (case item of
        NoItem \<Rightarrow> Tasks (init ())
      | EmptyItem \<Rightarrow> Tasks (init ())
      | BadJson \<Rightarrow> Tasks (init ())
      | NonArray \<Rightarrow> OtherValue
      | TaskArray parsed \<Rightarrow> Tasks parsed)"

text \<open>The task list the engine starts with, at time \<open>now\<close>.\<close>

definition loadTasks :: "StoredItem \<Rightarrow> int \<Rightarrow> Loaded" where
  "loadTasks item now = usePersistent item (\<lambda>_. tasksInitializer item now)"

section \<open>Import of a save file (Profile, object-store engine)\<close>

record GuildMember =
  id_member :: string
  name_member :: string
  level_member :: int
  class_member :: CharClass
  isUser :: bool

record Guild =
  id_guild :: string
  name_guild :: string
  code :: string
  members :: "GuildMember list"

text \<open>The three tables of the object store; \<open>userStats\<close> holds the singleton of key \<open>user\<close>.\<close>

record Store =
  db_tasks :: "Task list"
  db_userStats :: "UserStats option"
  db_guild :: "Guild list"

text \<open>
  The text of the chosen file: text that \<open>JSON.parse\<close> rejects, or a document whose three
  fields are each present or absent (\<open>None\<close> also stands for a falsy value such as \<open>null\<close>;
  a \<open>tasks\<close> field is an array of tasks when present).
\<close>

datatype SaveFile =
    Unparsable
  | SaveDoc "Task list option" "UserStats option" "Guild option"

record ImportResult =
  store :: Store
  shown :: "Alert list"
  reloaded :: bool

text \<open>
  \<open>handleImport\<close>, once the file is read; \<open>confirmed\<close> is the user's answer to the
  confirmation dialog. \<open>bulkAdd\<close> fails on a repeated primary key, which aborts the
  transaction and undoes its writes.
\<close>

definition handleImport :: "SaveFile \<Rightarrow> bool \<Rightarrow> Store \<Rightarrow> ImportResult" where
  "handleImport file confirmed db =
     (case file of
        Unparsable \<Rightarrow> \<lparr>store = db, shown = [ImportFailed], reloaded = False\<rparr>
      | SaveDoc data_tasks data_user data_guild \<Rightarrow>
          (case (data_tasks, data_user) of
             (Some ts, Some u) \<Rightarrow>
               if confirmed
               then (if distinct (map id_task ts)
                     then \<lparr>store = \<lparr>db_tasks = ts, db_userStats = Some u,
                                     db_guild = (case data_guild of None \<Rightarrow> [] | Some g \<Rightarrow> [g])\<rparr>,
                           shown = [ImportSucceeded], reloaded = True\<rparr>
                     else \<lparr>store = db, shown = [ImportFailed], reloaded = False\<rparr>)
               else \<lparr>store = db, shown = [], reloaded = False\<rparr>
           | _ \<Rightarrow> \<lparr>store = db, shown = [ImportFailed], reloaded = False\<rparr>))"

section \<open>Sample data\<close>

text \<open>
  A date parser and formatter that know three instants, with their true epoch milliseconds,
  and a quest without optional fields.
\<close>

definition sample_getTime :: "string \<Rightarrow> int option" where
  "sample_getTime s =
     (if s = ''2024-01-01T00:00:00.000Z'' then Some 1704067200000
      else if s = ''2024-01-05T00:00:00.000Z'' then Some 1704412800000
      else if s = ''2024-01-08T00:00:00.000Z'' then Some 1704672000000
      else None)"

definition sample_toISOString :: "int \<Rightarrow> string" where
  "sample_toISOString ms =
     (if ms = 1704067200000 then ''2024-01-01T00:00:00.000Z''
      else if ms = 1704412800000 then ''2024-01-05T00:00:00.000Z''
      else if ms = 1704672000000 then ''2024-01-08T00:00:00.000Z''
      else ''other'')"

definition quest :: "string \<Rightarrow> Task" where
  "quest ident =
     \<lparr>id_task = ident, title = ''Quest'', description = ''Added manually'', completed = False,
      exp_task = 100, type_task = QUEST, priority = HIGH, voiceNote = None, reminder = None,
      reminderFired = None, timeSpent = Some (Num 0), isRunning = Some False,
      lastUpdated = None, completedAt = None, deleted = None, deadline = None,
      completedOnTime = None\<rparr>"

definition late_quest :: Task where
  "late_quest = (quest ''1'')\<lparr>deadline := Some ''2024-01-01T00:00:00.000Z''\<rparr>"

definition board :: "Task list \<Rightarrow> Dashboard" where
  "board ts = \<lparr>tasks = ts, finishingTaskIds = [], isMounted = True, taskToDelete = None,
               onAddExp_calls = []\<rparr>"

text \<open>Three on-time completions, one late completion, one abandoned quest.\<close>

definition mixed_tasks :: "Task list" where
  "mixed_tasks =
     [(quest ''1'')\<lparr>completed := True, completedOnTime := Some True\<rparr>,
      (quest ''2'')\<lparr>completed := True, completedOnTime := Some True\<rparr>,
      (quest ''3'')\<lparr>completed := True\<rparr>,
      (quest ''4'')\<lparr>completed := True, completedOnTime := Some False\<rparr>,
      (quest ''5'')\<lparr>deleted := Some True\<rparr>]"

text \<open>Twenty-three on-time completions and seventeen abandoned quests.\<close>

definition drift_tasks :: "Task list" where
  "drift_tasks =
     replicate 23 ((quest ''1'')\<lparr>completed := True, completedOnTime := Some True\<rparr>)
     @ replicate 17 ((quest ''2'')\<lparr>deleted := Some True\<rparr>)"

text \<open>A quest whose stopwatch was running, last ticked on 1 January 2024, 00:00:00.\<close>

definition running_quest :: Task where
  "running_quest = (quest ''7'')\<lparr>timeSpent := Some (Num 10), isRunning := Some True,
                                   lastUpdated := Some 1704067200000\<rparr>"


text \<open>A 7-day Monk Mode session started on 1 January 2024, and a Profile showing it.\<close>

definition monk7 :: MonkMode where
  "monk7 = \<lparr>isActive = True, startDate = Some ''2024-01-01T00:00:00.000Z'',
            endDate = Some ''2024-01-08T00:00:00.000Z'', durationLabel = ''7 Days'',
            totalDays = 7, minSuccessRate = Some 50\<rparr>"

definition profile0 :: Profile where
  "profile0 = \<lparr>stats = INITIAL_USER\<lparr>monkMode := Some monk7\<rparr>, confirmBreach = False,
               showFailureDialog = False, breachTimeout = None, alerts = []\<rparr>"

section \<open>Arithmetic of the helpers\<close>

lemma floor_x15_div: "floor_x15 n = (3 * n) div 2"
proof -
  have "(of_int n :: rat) * (3 / 2) = of_int (3 * n) / of_int 2" by simp
  then show ?thesis unfolding floor_x15_def by (simp only: floor_divide_of_int_eq)
qed


lemma floor_half_div: "floor_half e = e div 2"
proof -
  have "(of_int e :: rat) / 2 = of_int e / of_int 2" by simp
  then show ?thesis unfolding floor_half_def by (simp only: floor_divide_of_int_eq)
qed


lemma pow2_powi: "pow2 e = 2 powi e"
  by (simp add: pow2_def power_int_def inverse_eq_divide power_one_over)

lemma pow2_pos: "0 < pow2 e"
  by (simp add: pow2_powi)

lemma pow2_add: "pow2 (a + b) = pow2 a * pow2 b"
  by (simp add: pow2_powi power_int_add)

lemma pow2_nat: "0 \<le> e \<Longrightarrow> pow2 e = 2 ^ nat e"
  by (simp add: pow2_def)


lemma bit_length_bounds:
  "0 < n \<Longrightarrow> 1 \<le> bit_length n \<and> 2 ^ nat (bit_length n - 1) \<le> n \<and> n < 2 ^ nat (bit_length n)"
proof (induction n rule: bit_length.induct)
  case (1 n)
  show ?case
  proof (cases "n = 1")
    case True
    have "bit_length (1 div 2) = 0" by (subst bit_length.simps) simp
    then have "bit_length 1 = 1" by (subst bit_length.simps) simp
    then show ?thesis using True by simp
  next
    case False
    with "1.prems" have h: "0 < n div 2" by simp
    with "1.IH" "1.prems" have
      ih: "1 \<le> bit_length (n div 2)"
          "2 ^ nat (bit_length (n div 2) - 1) \<le> n div 2"
          "n div 2 < 2 ^ nat (bit_length (n div 2))" by simp_all
    have bl: "bit_length n = 1 + bit_length (n div 2)"
      using "1.prems" by (subst bit_length.simps) simp
    have e1: "nat (bit_length n - 1) = Suc (nat (bit_length (n div 2) - 1))"
      using bl ih(1) by simp
    have e2: "nat (bit_length n) = Suc (nat (bit_length (n div 2)))"
      using bl ih(1) by simp
    have "2 * 2 ^ nat (bit_length (n div 2) - 1) \<le> n" using ih(2) by linarith
    moreover have "n < 2 * 2 ^ nat (bit_length (n div 2))" using ih(3) by linarith
    ultimately show ?thesis using bl ih(1) unfolding e1 e2 by simp
  qed
qed

lemma binade_le:
  assumes "0 < x"
  shows "pow2 (binade x) \<le> x"
proof -
  obtain a b where q: "quotient_of x = (a, b)" by (cases "quotient_of x")
  have b: "0 < b" using quotient_of_denom_pos [OF q] .
  have x: "x = of_int a / of_int b" using quotient_of_div [OF q] .
  have a: "0 < a" using assms b unfolding x by (simp add: zero_less_divide_iff)
  let ?g = "bit_length a - bit_length b"
  show ?thesis
  proof (cases "pow2 ?g \<le> x")
    case True
    then show ?thesis by (simp add: binade_def q)
  next
    case False
    then have bx: "binade x = ?g - 1" by (simp add: binade_def q)
    from bit_length_bounds [OF a] have la: "1 \<le> bit_length a" "2 ^ nat (bit_length a - 1) \<le> a"
      by simp_all
    from bit_length_bounds [OF b] have lb: "1 \<le> bit_length b" "b < 2 ^ nat (bit_length b)"
      by simp_all
    have "pow2 (?g - 1) * pow2 (bit_length b) = pow2 (bit_length a - 1)"
      by (simp add: pow2_add [symmetric])
    also have "\<dots> = of_int (2 ^ nat (bit_length a - 1))" using la(1) by (simp add: pow2_nat)
    also have "\<dots> \<le> of_int a" using la(2) by (simp only: of_int_le_iff)
    finally have 1: "pow2 (?g - 1) * pow2 (bit_length b) \<le> of_int a" .
    have "(of_int b :: rat) \<le> of_int (2 ^ nat (bit_length b))"
      using lb(2) by (simp only: of_int_le_iff less_imp_le)
    also have "\<dots> = pow2 (bit_length b)" using lb(1) by (simp add: pow2_nat)
    finally have 2: "(of_int b :: rat) \<le> pow2 (bit_length b)" .
    have "pow2 (?g - 1) * of_int b \<le> pow2 (?g - 1) * pow2 (bit_length b)"
      using 2 pow2_pos [of "?g - 1"] by (simp add: mult_left_mono)
    with 1 have "pow2 (?g - 1) * of_int b \<le> of_int a" by linarith
    then have "pow2 (?g - 1) \<le> of_int a / of_int b"
      using b by (simp add: pos_le_divide_eq)
    then have "pow2 (binade x) \<le> of_int a / of_int b" by (simp only: bx)
    then show ?thesis by (simp only: x [symmetric])
  qed
qed

lemma binade_less:
  assumes "0 < x"
  shows "x < pow2 (binade x + 1)"
proof -
  obtain a b where q: "quotient_of x = (a, b)" by (cases "quotient_of x")
  have b: "0 < b" using quotient_of_denom_pos [OF q] .
  have x: "x = of_int a / of_int b" using quotient_of_div [OF q] .
  have a: "0 < a" using assms b unfolding x by (simp add: zero_less_divide_iff)
  let ?g = "bit_length a - bit_length b"
  show ?thesis
  proof (cases "pow2 ?g \<le> x")
    case False
    then have "binade x = ?g - 1" by (simp add: binade_def q)
    then show ?thesis using False by simp
  next
    case True
    then have bx: "binade x = ?g" by (simp add: binade_def q)
    from bit_length_bounds [OF a] have la: "1 \<le> bit_length a" "a < 2 ^ nat (bit_length a)"
      by simp_all
    from bit_length_bounds [OF b] have lb: "1 \<le> bit_length b" "2 ^ nat (bit_length b - 1) \<le> b"
      by simp_all
    have "(of_int a :: rat) < of_int (2 ^ nat (bit_length a))"
      using la(2) by (simp only: of_int_less_iff)
    also have "\<dots> = pow2 (bit_length a)" using la(1) by (simp add: pow2_nat)
    also have "\<dots> = pow2 (?g + 1) * pow2 (bit_length b - 1)"
      by (simp add: pow2_add [symmetric])
    finally have 1: "(of_int a :: rat) < pow2 (?g + 1) * pow2 (bit_length b - 1)" .
    have "pow2 (bit_length b - 1) = of_int (2 ^ nat (bit_length b - 1))"
      using lb(1) by (simp add: pow2_nat)
    also have "\<dots> \<le> of_int b" using lb(2) by (simp only: of_int_le_iff)
    finally have 2: "pow2 (bit_length b - 1) \<le> of_int b" .
    have "pow2 (?g + 1) * pow2 (bit_length b - 1) \<le> pow2 (?g + 1) * of_int b"
      using 2 pow2_pos [of "?g + 1"] by (simp add: mult_left_mono)
    with 1 have "(of_int a :: rat) < pow2 (?g + 1) * of_int b" by linarith
    then have "of_int a / of_int b < pow2 (?g + 1)"
      using b by (simp add: pos_divide_less_eq)
    then have "of_int a / of_int b < pow2 (binade x + 1)" by (simp only: bx)
    then show ?thesis by (simp only: x [symmetric])
  qed
qed

lemma round_half_even_close: "\<bar>of_int (round_half_even y) - y\<bar> \<le> 1 / 2"
proof -
  have "of_int \<lfloor>y\<rfloor> \<le> y" "y < of_int \<lfloor>y\<rfloor> + 1" by linarith+
  then show ?thesis
    by (auto simp: round_half_even_def Let_def)
qed

lemma round_half_even_nonneg: "0 \<le> y \<Longrightarrow> 0 \<le> round_half_even y"
proof -
  assume "0 \<le> y"
  then have "0 \<le> \<lfloor>y\<rfloor>" by simp
  then show ?thesis by (auto simp: round_half_even_def Let_def)
qed

lemma to_double_nonneg: "0 \<le> x \<Longrightarrow> 0 \<le> to_double x"
  by (auto simp: to_double_def Let_def pow2_pos less_imp_le round_half_even_nonneg
           intro!: mult_nonneg_nonneg)

lemma to_double_error:
  assumes "0 \<le> x"
  shows "\<bar>to_double x - x\<bar> \<le> x / 2 ^ 53 + 1 / 2 ^ 1075"
proof (cases "x = 0")
  case True
  then show ?thesis by (simp add: to_double_def)
next
  case False
  with assms have x: "0 < x" by simp
  let ?e = "max (binade x - 52) (- 1074)"
  let ?p = "pow2 ?e"
  let ?m = "round_half_even (x / ?p)"
  have p: "0 < ?p" by (rule pow2_pos)
  have td: "to_double x = of_int ?m * ?p" using x by (simp add: to_double_def Let_def)
  have "of_int ?m * ?p - x = (of_int ?m - x / ?p) * ?p" using p by (simp add: field_simps)
  then have "\<bar>to_double x - x\<bar> = \<bar>of_int ?m - x / ?p\<bar> * ?p"
    unfolding td using p by (simp add: abs_mult)
  also have "\<dots> \<le> 1 / 2 * ?p"
    using round_half_even_close [of "x / ?p"] p by (intro mult_right_mono) simp_all
  finally have 1: "\<bar>to_double x - x\<bar> \<le> ?p / 2" by simp
  have "pow2 (binade x - 52) * pow2 52 = pow2 (binade x)" by (simp add: pow2_add [symmetric])
  then have "pow2 (binade x - 52) * 2 ^ 52 \<le> x" using binade_le [OF x] by (simp add: pow2_nat)
  then have 2: "pow2 (binade x - 52) \<le> x / 2 ^ 52" by (simp add: pos_le_divide_eq)
  have 3: "pow2 (- 1074) = 1 / 2 ^ 1074" by (simp add: pow2_def)
  have "?p \<le> pow2 (binade x - 52) + pow2 (- 1074)"
    using pow2_pos [of "binade x - 52"] pow2_pos [of "- 1074"] by (simp add: max_def)
  with 2 3 have "?p \<le> x / 2 ^ 52 + 1 / 2 ^ 1074" by linarith
  with 1 show ?thesis by (simp add: field_simps)
qed


lemma percent_error:
  assumes "0 < n" and "k \<le> n"
  shows "\<bar>to_double (to_double (of_nat k / of_nat n) * 100) - 100 * of_nat k / of_nat n\<bar>
           \<le> 1 / 2 ^ 43"
proof -
  define x :: rat where "x = of_nat k / of_nat n"
  define d1 where "d1 = to_double x"
  define y where "y = d1 * 100"
  define d2 where "d2 = to_double y"
  define u :: rat where "u = 1 / 2 ^ 53"
  define t :: rat where "t = 1 / 2 ^ 1075"
  have t: "t \<le> u" unfolding t_def u_def by (simp add: field_simps power_increasing)
  have u1: "2 * u \<le> 1" and u0: "0 \<le> u" unfolding u_def by simp_all
  have x0: "0 \<le> x" unfolding x_def by simp
  have x1: "x \<le> 1" unfolding x_def using assms by (simp add: field_simps)
  have "\<bar>d1 - x\<bar> \<le> x / 2 ^ 53 + 1 / 2 ^ 1075"
    unfolding d1_def by (rule to_double_error [OF x0])
  then have e1: "\<bar>d1 - x\<bar> \<le> x * u + t" unfolding u_def t_def by simp
  have "x * u \<le> 1 * u" using x1 u0 by (rule mult_right_mono)
  with e1 t have e1': "\<bar>d1 - x\<bar> \<le> 2 * u" by linarith
  have d0: "0 \<le> d1" unfolding d1_def by (rule to_double_nonneg [OF x0])
  from e1' x1 u1 have d2: "d1 \<le> 2" by linarith
  have y: "y = 100 * d1" unfolding y_def by simp
  have y0: "0 \<le> y" unfolding y using d0 by simp
  have y2: "y \<le> 200" unfolding y using d2 by simp
  have "\<bar>d2 - y\<bar> \<le> y / 2 ^ 53 + 1 / 2 ^ 1075"
    unfolding d2_def by (rule to_double_error [OF y0])
  then have e2: "\<bar>d2 - y\<bar> \<le> y * u + t" unfolding u_def t_def by simp
  have "y * u \<le> 200 * u" using y2 u0 by (rule mult_right_mono)
  with e2 t have e2': "\<bar>d2 - y\<bar> \<le> 201 * u" by linarith
  from e1' e2' have "\<bar>d2 - 100 * x\<bar> \<le> 401 * u" unfolding y by linarith
  moreover have "401 * u \<le> 1 / 2 ^ 43" unfolding u_def by simp
  ultimately have "\<bar>d2 - 100 * x\<bar> \<le> 1 / 2 ^ 43" by linarith
  then show ?thesis unfolding d2_def y_def d1_def x_def by simp
qed

lemma floor_stable:
  fixes e :: rat
  assumes "0 < D" and "\<not> D dvd N" and "\<bar>e\<bar> < 1 / of_int D"
  shows "\<lfloor>of_int N / of_int D + e\<rfloor> = N div D"
proof (rule floor_unique)
  let ?m = "N mod D"
  have "?m \<noteq> 0" using assms(2) by (simp add: dvd_eq_mod_eq_0)
  moreover have "0 \<le> ?m" "?m < D" using assms(1) by simp_all
  ultimately have m: "0 < ?m" "?m < D" by simp_all
  have D: "(0 :: rat) < of_int D" using assms(1) by simp
  have "N = D * (N div D) + ?m" by simp
  then have "(of_int N :: rat) = of_int D * of_int (N div D) + of_int ?m"
    by (metis of_int_add of_int_mult)
  then have split: "(of_int N :: rat) / of_int D = of_int (N div D) + of_int ?m / of_int D"
    using D by (simp add: field_simps)
  have "(1 :: rat) \<le> of_int ?m" using m(1) by simp
  then have lo: "(1 :: rat) / of_int D \<le> of_int ?m / of_int D"
    using D by (simp add: divide_le_cancel)
  have "?m + 1 \<le> D" using m(2) by simp
  then have "(of_int (?m + 1) :: rat) \<le> of_int D" by (simp only: of_int_le_iff)
  then have hi: "(of_int ?m :: rat) / of_int D + 1 / of_int D \<le> 1"
    using D by (simp add: field_simps)
  from assms(3) have e: "- (1 / of_int D) < e" "e < 1 / of_int D" by (simp_all add: abs_less_iff)
  show "of_int (N div D) \<le> of_int N / of_int D + e" unfolding split using lo e(1) by linarith
  show "of_int N / of_int D + e < of_int (N div D) + 1" unfolding split using hi e(2) by linarith
qed

lemma floor_tie:
  fixes e :: rat
  assumes "0 < D" and "D dvd N" and "\<bar>e\<bar> < 1"
  shows "\<lfloor>of_int N / of_int D + e\<rfloor> = N div D \<or> \<lfloor>of_int N / of_int D + e\<rfloor> = N div D - 1"
proof -
  have D: "(0 :: rat) < of_int D" using assms(1) by simp
  from assms(2) have "N = D * (N div D)" by simp
  then have "(of_int N :: rat) = of_int D * of_int (N div D)" by (metis of_int_mult)
  then have v: "(of_int N :: rat) / of_int D = of_int (N div D)" using D by (simp add: field_simps)
  from assms(3) have e: "- 1 < e" "e < 1" by (simp_all add: abs_less_iff)
  show ?thesis
  proof (cases "0 \<le> e")
    case True
    have "\<lfloor>of_int N / of_int D + e\<rfloor> = N div D"
      unfolding v by (rule floor_unique) (use True e in simp_all)
    then show ?thesis by simp
  next
    case False
    have "\<lfloor>of_int N / of_int D + e\<rfloor> = N div D - 1"
      unfolding v by (rule floor_unique) (use False e in simp_all)
    then show ?thesis by simp
  qed
qed

lemma percent_rounds:
  assumes "0 < n" and "k \<le> n" and "n < 2 ^ 33"
  shows "(\<not> 2 * int n dvd 200 * int k + int n \<longrightarrow>
            percent k n = (200 * int k + int n) div (2 * int n))
       \<and> (percent k n = (200 * int k + int n) div (2 * int n)
          \<or> percent k n = (200 * int k + int n) div (2 * int n) - 1)"
proof -
  let ?q = "100 * of_nat k / of_nat n :: rat"
  let ?d = "to_double (to_double (of_nat k / of_nat n) * 100)"
  let ?N = "200 * int k + int n"
  let ?D = "2 * int n"
  define e where "e = ?d - ?q"
  have n: "(0 :: rat) < of_nat n" using assms(1) by simp
  have D: "0 < ?D" using assms(1) by simp
  have err: "\<bar>e\<bar> \<le> 1 / 2 ^ 43" unfolding e_def by (rule percent_error [OF assms(1,2)])
  have "int n < 2 ^ 33" using assms(3) by (metis of_nat_less_iff of_nat_numeral of_nat_power)
  then have "?D < 2 ^ 34" by simp
  then have "(of_int ?D :: rat) < of_int (2 ^ 34)" by (simp only: of_int_less_iff)
  then have Dr: "(of_int ?D :: rat) < 2 ^ 34" by simp
  have Dp: "(0 :: rat) < of_int ?D" using assms(1) by simp
  have "(1 :: rat) / 2 ^ 34 < 1 / of_int ?D" using Dr Dp by (simp add: field_simps)
  moreover have "(1 / 2 ^ 43 :: rat) \<le> 1 / 2 ^ 34" by simp
  ultimately have small: "\<bar>e\<bar> < 1 / of_int ?D" using err by linarith
  have small1: "\<bar>e\<bar> < 1" using err by simp
  have "(of_int ?N :: rat) / of_int ?D = ?q + 1 / 2" using n by (simp add: field_simps)
  then have arg: "?d + 1 / 2 = of_int ?N / of_int ?D + e" by (simp add: e_def)
  have p: "percent k n = \<lfloor>of_int ?N / of_int ?D + e\<rfloor>"
    by (simp only: percent_def Math_round_def arg)
  have A: "\<not> ?D dvd ?N \<Longrightarrow> \<lfloor>of_int ?N / of_int ?D + e\<rfloor> = ?N div ?D"
    by (rule floor_stable [OF D _ small])
  have B: "?D dvd ?N \<Longrightarrow> \<lfloor>of_int ?N / of_int ?D + e\<rfloor> = ?N div ?D
             \<or> \<lfloor>of_int ?N / of_int ?D + e\<rfloor> = ?N div ?D - 1"
    by (rule floor_tie [OF D _ small1])
  show ?thesis unfolding p using A B by blast
qed

text \<open>
  The percentages that are a half-integer, \<open>M - 1/2\<close> for \<open>M\<close> from 1 to 100, computed one
  by one: the double product falls below the half for four of them.
\<close>

lemma percent_ties_1:
  "list_all (\<lambda>M. Math_round (to_double (to_double (of_int (2 * M - 1) / 200) * 100))
                  = M - (if M \<in> {15, 29, 57, 58} then 1 else 0)) [1..25]"
  by code_simp

lemma percent_ties_2:
  "list_all (\<lambda>M. Math_round (to_double (to_double (of_int (2 * M - 1) / 200) * 100))
                  = M - (if M \<in> {15, 29, 57, 58} then 1 else 0)) [26..50]"
  by code_simp

lemma percent_ties_3:
  "list_all (\<lambda>M. Math_round (to_double (to_double (of_int (2 * M - 1) / 200) * 100))
                  = M - (if M \<in> {15, 29, 57, 58} then 1 else 0)) [51..75]"
  by code_simp

lemma percent_ties_4:
  "list_all (\<lambda>M. Math_round (to_double (to_double (of_int (2 * M - 1) / 200) * 100))
                  = M - (if M \<in> {15, 29, 57, 58} then 1 else 0)) [76..100]"
  by code_simp

lemma percent_tie:
  assumes "1 \<le> M" and "M \<le> 100"
  shows "Math_round (to_double (to_double (of_int (2 * M - 1) / 200) * 100))
           = M - (if M \<in> {15, 29, 57, 58} then 1 else 0)"
proof -
  have "M \<in> set [1..25] \<or> M \<in> set [26..50] \<or> M \<in> set [51..75] \<or> M \<in> set [76..100]"
    unfolding set_upto atLeastAtMost_iff using assms by linarith
  then show ?thesis
    using percent_ties_1 percent_ties_2 percent_ties_3 percent_ties_4
    unfolding list_all_iff by blast
qed

text \<open>
  \<open>Math.round((part / whole) * 100)\<close> against the exact percentage rounded, a half going
  up: they agree but for the four fractions at which the exact percentage is a
  half-integer and the double product falls below it.
\<close>

lemma percent_exact:
  assumes "0 < n" and "k \<le> n" and "n < 2 ^ 33"
  shows "percent k n =
           round (of_nat k / of_nat n * 100 :: rat)
           - (if (of_nat k / of_nat n :: rat) \<in> {29 / 200, 57 / 200, 113 / 200, 23 / 40}
              then 1 else 0)"
proof -
  define x :: rat where "x = of_nat k / of_nat n"
  let ?N = "200 * int k + int n"
  let ?D = "2 * int n"
  have n: "(0 :: rat) < of_nat n" using assms(1) by simp
  have Dp: "(0 :: rat) < of_int ?D" using assms(1) by simp
  have half: "x * 100 + 1 / 2 = of_int ?N / of_int ?D"
    unfolding x_def using n by (simp add: field_simps)
  have r: "round (x * 100) = ?N div ?D"
    unfolding round_def half by (simp only: floor_divide_of_int_eq)
  show ?thesis
  proof (cases "?D dvd ?N")
    case False
    have p: "percent k n = ?N div ?D"
      using percent_rounds [OF assms] False by blast
    have "x \<notin> {29 / 200, 57 / 200, 113 / 200, 23 / 40}"
    proof
      assume "x \<in> {29 / 200, 57 / 200, 113 / 200, 23 / 40}"
      then have "\<exists>M :: int. x * 100 + 1 / 2 = of_int M"
      proof (elim insertE emptyE)
        assume "x = 29 / 200" then have "x * 100 + 1 / 2 = of_int 15" by simp
        then show ?thesis by blast
      next
        assume "x = 57 / 200" then have "x * 100 + 1 / 2 = of_int 29" by simp
        then show ?thesis by blast
      next
        assume "x = 113 / 200" then have "x * 100 + 1 / 2 = of_int 57" by simp
        then show ?thesis by blast
      next
        assume "x = 23 / 40" then have "x * 100 + 1 / 2 = of_int 58" by simp
        then show ?thesis by blast
      qed
      then obtain M :: int where "x * 100 + 1 / 2 = of_int M" by blast
      then have "(of_int ?N :: rat) = of_int (?D * M)"
        unfolding half using Dp by (simp add: field_simps)
      then have "?N = ?D * M" by (simp only: of_int_eq_iff)
      then have "?D dvd ?N" by (metis dvd_triv_left)
      with False show False by simp
    qed
    then show ?thesis unfolding x_def [symmetric] using p r by simp
  next
    case True
    then obtain M where M: "?N = ?D * M" by (auto simp: dvd_def)
    then have "(of_int ?N :: rat) = of_int ?D * of_int M" by (metis of_int_mult)
    then have hM: "x * 100 + 1 / 2 = of_int M" unfolding half using Dp by simp
    have xM: "x = of_int (2 * M - 1) / 200" using hM by simp
    have x0: "0 \<le> x" unfolding x_def by simp
    have x1: "x \<le> 1" unfolding x_def using assms(1,2) by (simp add: field_simps)
    have "(0 :: rat) < of_int M" using hM x0 by linarith
    then have M1: "1 \<le> M" by simp
    have "(of_int M :: rat) < 101" using hM x1 by linarith
    then have M2: "M \<le> 100" by simp
    have rM: "round (x * 100) = M"
      unfolding round_def hM by simp
    have "percent k n = Math_round (to_double (to_double x * 100))"
      by (simp only: percent_def x_def)
    also have "\<dots> = M - (if M \<in> {15, 29, 57, 58} then 1 else 0)"
      unfolding xM by (rule percent_tie [OF M1 M2])
    finally have p: "percent k n = M - (if M \<in> {15, 29, 57, 58} then 1 else 0)" .
    have "(x \<in> {29 / 200, 57 / 200, 113 / 200, 23 / 40}) = (M \<in> {15, 29, 57, 58})"
    proof -
      have a: "(x = 29 / 200) = (M = 15)" "(x = 57 / 200) = (M = 29)"
              "(x = 113 / 200) = (M = 57)" "(x = 23 / 40) = (M = 58)"
        unfolding xM by (auto simp: field_simps)
      show ?thesis by (simp only: insert_iff empty_iff a)
    qed
    then show ?thesis unfolding x_def [symmetric] using p rM by simp
  qed
qed


lemma onTimeTask_fun:
  "onTimeTask = (\<lambda>t. completed t \<and> completedOnTime t \<noteq> Some False)"
  by (rule ext) (simp add: onTimeTask_def)



section \<open>Levelling: the loop returns and keeps the invariant\<close>



lemma levelUpLoop_rest: "0 < n \<Longrightarrow> levelUpLoop (Num 0) l n = Some (Num 0, l, n)"
  by (subst levelUpLoop.simps) simp

lemma levelUpLoop_NaN: "levelUpLoop NaN l n = Some (NaN, l, n)"
  by (subst levelUpLoop.simps) simp









text \<open>
  In the object-store engine two calls of one callback both compute from the user captured
  at render time. With the initial user captured and stored, \<open>addExp(100)\<close> stores level 2
  with total 0 and threshold 150; \<open>addExp(25)\<close> from the same callback then stores level 1
  with total 25 and threshold 100: the first award is lost and the stored level goes down.
\<close>

lemma addExp_closure_lost_update:
  "addExp_closure (Num 100) INITIAL_USER (Some INITIAL_USER)
     = Some (Some (INITIAL_USER\<lparr>level := 2, currentExp := Num 0, nextLevelExp := 150\<rparr>))
   \<and> addExp_closure (Num 25) INITIAL_USER
       (Some (INITIAL_USER\<lparr>level := 2, currentExp := Num 0, nextLevelExp := 150\<rparr>))
     = Some (Some (INITIAL_USER\<lparr>level := 1, currentExp := Num 25, nextLevelExp := 100\<rparr>))"
proof -
  have f: "floor_x15 100 = 150" by (simp add: floor_x15_div)
  have "levelUpLoop (Num 0) 2 150 = Some (Num 0, 2, 150)" by (rule levelUpLoop_rest) simp
  then have "levelUpLoop (Num 100) 1 100 = Some (Num 0, 2, 150)"
    by (subst levelUpLoop.simps) (simp add: exact_round_def exact_int_def f)
  moreover have "levelUpLoop (Num 25) 1 100 = Some (Num 25, 1, 100)"
    by (subst levelUpLoop.simps) simp
  ultimately show ?thesis
    by (simp add: addExp_closure_def INITIAL_USER_def exact_int_def)
qed

section \<open>Levelling: a NaN running total\<close>

text \<open>
  C3, as the code has it. In the localStorage engine the check for \<open>NaN\<close> comes after the
  addition: on a state whose \<open>currentExp\<close> is \<open>NaN\<close> and whose threshold is positive,
  \<open>addExp(amount)\<close> returns the state with \<open>currentExp = 0\<close> and nothing else changed,
  whatever the amount, which is not credited. The object-store engine has no check and
  leaves the stored user as it was, \<open>currentExp\<close> still \<open>NaN\<close>.
\<close>

theorem addExp_NaN_total:
  assumes "currentExp s = NaN" and "0 < nextLevelExp s"
  shows "addExp amount s = Some (s\<lparr>currentExp := Num 0\<rparr>)
       \<and> addExp_db amount (Some s) = Some (Some s)"
proof
  show "addExp amount s = Some (s\<lparr>currentExp := Num 0\<rparr>)"
    using assms(1) levelUpLoop_rest [OF assms(2)] by (simp add: addExp_def)
  show "addExp_db amount (Some s) = Some (Some s)"
    using assms(1) levelUpLoop_NaN
    by (simp add: addExp_db_def addExp_closure_def userStats_of_def)
qed

theorem addExp_NaN_total_witness:
  "currentExp (INITIAL_USER\<lparr>currentExp := NaN\<rparr>) = NaN
   \<and> 0 < nextLevelExp (INITIAL_USER\<lparr>currentExp := NaN\<rparr>)
   \<and> addExp (Num 50) (INITIAL_USER\<lparr>currentExp := NaN\<rparr>) = Some INITIAL_USER"
proof -
  have h1: "currentExp (INITIAL_USER\<lparr>currentExp := NaN\<rparr>) = NaN" by simp
  have h2: "0 < nextLevelExp (INITIAL_USER\<lparr>currentExp := NaN\<rparr>)"
    by (simp add: INITIAL_USER_def)
  from addExp_NaN_total [OF h1 h2, of "Num 50"] h1 h2 show ?thesis
    by (simp add: INITIAL_USER_def)
qed

text \<open>
  C3 as stated fails: on the \<open>NaN\<close> total \<open>addExp(50)\<close> leaves \<open>currentExp = 0\<close>, while on
  the total 0 it leaves \<open>currentExp = 50\<close>.
\<close>

theorem addExp_NaN_not_credited_counterexample:
  "addExp (Num 50) (INITIAL_USER\<lparr>currentExp := NaN\<rparr>) = Some (INITIAL_USER\<lparr>currentExp := Num 0\<rparr>)
   \<and> addExp (Num 50) (INITIAL_USER\<lparr>currentExp := Num 0\<rparr>) = Some (INITIAL_USER\<lparr>currentExp := Num 50\<rparr>)
   \<and> INITIAL_USER\<lparr>currentExp := Num 0\<rparr> \<noteq> INITIAL_USER\<lparr>currentExp := Num 50\<rparr>"
  by (simp add: INITIAL_USER_def addExp_def levelUpLoop.simps exact_int_def)

section \<open>Completion and the late penalty\<close>

lemma find_map_same:
  "(\<And>t. P (f t) = P t) \<Longrightarrow> find P (map f xs) = map_option f (find P xs)"
  by (induction xs) simp_all

text \<open>The deadline check pays half, floored, exactly when the deadline has passed.\<close>

lemma deadline_check_spec:
  "deadline_check getTime now task =
     (if deadline_passed getTime now task then (exp_task task div 2, False)
      else (exp_task task, True))"
  by (simp add: deadline_check_def deadline_passed_def floor_half_div
           split: option.splits)

lemma handleCompleteTask_runs:
  assumes "ident \<notin> set (finishingTaskIds d)"
    and "find (\<lambda>t. id_task t = ident) (tasks d) = Some task"
    and "\<not> completed task"
  shows "handleCompleteTask getTime toISOString now later ident d =
     completion_callback toISOString later ident
       (if deadline_passed getTime now task then exp_task task div 2 else exp_task task)
       (\<not> deadline_passed getTime now task)
       (d\<lparr>finishingTaskIds := finishingTaskIds d @ [ident]\<rparr>)"
  unfolding handleCompleteTask_def deadline_check_spec
  by (cases "deadline_passed getTime now task")
     (simp_all only: assms if_False if_True option.case prod.case
        not_True_eq_False not_False_eq_True)

lemma tasks_completion_callback:
  "tasks (completion_callback toISOString later ident aw ot d) =
     map (\<lambda>t. if id_task t = ident
                 then t\<lparr>completed := True, completedAt := Some (toISOString later),
                        isRunning := Some False, lastUpdated := None,
                        completedOnTime := Some ot, exp_task := aw\<rparr>
                 else t) (tasks d)"
  by (simp add: completion_callback_def)

lemma calls_completion_callback:
  "onAddExp_calls (completion_callback toISOString later ident aw ot d) = onAddExp_calls d @ [aw]"
  by (simp add: completion_callback_def)

text \<open>
  C1. A completion that goes through (the task exists, is not completed, and no completion
  of it is in progress) calls \<open>onAddExp\<close> once more, with \<open>floor(exp / 2)\<close> when the task
  has a deadline that lies before the time of the click and with the full \<open>exp\<close> otherwise
  (no deadline, an unreadable one, or one not yet passed). The task found under the id
  becomes the old task with \<open>completed = true\<close>, the completion stamp, the timer stopped,
  \<open>completedOnTime\<close> false when late and true otherwise, and \<open>exp\<close> overwritten by the amount
  awarded; the same holds of \<open>completed\<close>, \<open>completedOnTime\<close> and \<open>exp\<close> in every task of
  that id.
\<close>

theorem handleCompleteTask_award:
  assumes "ident \<notin> set (finishingTaskIds d)"
    and "find (\<lambda>t. id_task t = ident) (tasks d) = Some task"
    and "\<not> completed task"
    and "d' = handleCompleteTask getTime toISOString now later ident d"
    and "late = deadline_passed getTime now task"
    and "awarded = (if late then exp_task task div 2 else exp_task task)"
  shows "onAddExp_calls d' = onAddExp_calls d @ [awarded]
       \<and> find (\<lambda>t. id_task t = ident) (tasks d') =
           Some (task\<lparr>completed := True, completedAt := Some (toISOString later),
                      isRunning := Some False, lastUpdated := None,
                      completedOnTime := Some (\<not> late), exp_task := awarded\<rparr>)
       \<and> (\<forall>t \<in> set (tasks d'). id_task t = ident \<longrightarrow>
             completed t \<and> completedOnTime t = Some (\<not> late) \<and> exp_task t = awarded)"
proof -
  let ?f = "\<lambda>t. if id_task t = ident
                 then t\<lparr>completed := True, completedAt := Some (toISOString later),
                        isRunning := Some False, lastUpdated := None,
                        completedOnTime := Some (\<not> late), exp_task := awarded\<rparr>
                 else t"
  have eq: "d' = completion_callback toISOString later ident awarded (\<not> late)
                   (d\<lparr>finishingTaskIds := finishingTaskIds d @ [ident]\<rparr>)"
    unfolding assms(4-6) by (rule handleCompleteTask_runs [OF assms(1-3)])
  have calls: "onAddExp_calls d' = onAddExp_calls d @ [awarded]"
    unfolding eq calls_completion_callback by simp
  have ts: "tasks d' = map ?f (tasks d)"
    unfolding eq tasks_completion_callback by simp
  have idt: "id_task task = ident" using assms(2) by (auto simp: find_Some_iff)
  have same: "(id_task (?f t) = ident) = (id_task t = ident)" for t by simp
  have "find (\<lambda>t. id_task t = ident) (map ?f (tasks d)) = map_option ?f (Some task)"
    using find_map_same [of "\<lambda>t. id_task t = ident" ?f "tasks d", OF same]
    by (simp only: assms(2))
  then have fnd: "find (\<lambda>t. id_task t = ident) (tasks d') = Some (?f task)"
    unfolding ts by simp
  have all: "\<forall>t \<in> set (tasks d'). id_task t = ident \<longrightarrow>
             completed t \<and> completedOnTime t = Some (\<not> late) \<and> exp_task t = awarded"
  proof (intro ballI impI)
    fix t assume "t \<in> set (tasks d')" and i: "id_task t = ident"
    then obtain u where u: "t = ?f u" unfolding ts by (auto simp only: set_map)
    show "completed t \<and> completedOnTime t = Some (\<not> late) \<and> exp_task t = awarded"
    proof (cases "id_task u = ident")
      case True
      then show ?thesis unfolding u by simp
    next
      case False
      then have "t = u" unfolding u by simp
      with i False show ?thesis by simp
    qed
  qed
  from fnd idt have fnd': "find (\<lambda>t. id_task t = ident) (tasks d') =
           Some (task\<lparr>completed := True, completedAt := Some (toISOString later),
                      isRunning := Some False, lastUpdated := None,
                      completedOnTime := Some (\<not> late), exp_task := awarded\<rparr>)"
    by simp
  from calls fnd' all show ?thesis by blast
qed

text \<open>
  The example of the specification: a reward of 100, with a deadline on 1 January 2024,
  completed on 5 January, awards 50 and leaves 50 stored.
\<close>

theorem handleCompleteTask_award_witness:
  "''1'' \<notin> set (finishingTaskIds (board [late_quest]))
   \<and> find (\<lambda>t. id_task t = ''1'') (tasks (board [late_quest])) = Some late_quest
   \<and> \<not> completed late_quest
   \<and> deadline_passed sample_getTime 1704412800000 late_quest
   \<and> exp_task late_quest = 100
   \<and> onAddExp_calls (handleCompleteTask sample_getTime sample_toISOString
         1704412800000 1704412801200 ''1'' (board [late_quest])) = [50]
   \<and> map_option exp_task
        (find (\<lambda>t. id_task t = ''1'')
           (tasks (handleCompleteTask sample_getTime sample_toISOString
              1704412800000 1704412801200 ''1'' (board [late_quest])))) = Some 50
   \<and> map_option completedOnTime
        (find (\<lambda>t. id_task t = ''1'')
           (tasks (handleCompleteTask sample_getTime sample_toISOString
              1704412800000 1704412801200 ''1'' (board [late_quest])))) = Some (Some False)"
proof -
  have h1: "''1'' \<notin> set (finishingTaskIds (board [late_quest]))"
    by (simp add: board_def)
  have h2: "find (\<lambda>t. id_task t = ''1'') (tasks (board [late_quest])) = Some late_quest"
    by (simp add: board_def late_quest_def quest_def)
  have h3: "\<not> completed late_quest"
    by (simp add: late_quest_def quest_def)
  have l: "deadline_passed sample_getTime 1704412800000 late_quest"
    by (simp add: deadline_passed_def late_quest_def sample_getTime_def)
  have e: "exp_task late_quest = 100"
    by (simp add: late_quest_def quest_def)
  have o: "onAddExp_calls (board [late_quest]) = []"
    by (simp add: board_def)
  from handleCompleteTask_award [OF h1 h2 h3 refl refl refl,
      of sample_getTime sample_toISOString 1704412800000 1704412801200]
  show ?thesis using l e o h1 h2 h3 by simp
qed

section \<open>Success rate\<close>

lemma onTime_le_completed:
  "length (filter (\<lambda>t. completed t \<and> completedOnTime t \<noteq> Some False) ts)
     \<le> length (filter completed ts)"
  by (induction ts) simp_all

lemma percent_23_40: "percent 23 40 = 57"
  by code_simp

text \<open>
  C4, as the code has it. The counts are taken on the task list itself: completions are
  the tasks with \<open>completed\<close> set, abandonments the soft-deleted tasks (\<open>deleted\<close> set,
  whether or not the task was completed before), on-time completions the completed tasks
  not marked late. The list has fewer than \<open>2^32\<close> tasks, as every JavaScript array has.

  The success rate is 100 when completions plus abandonments is zero. Otherwise it is
  \<open>Math.round\<close> of the double product of the double quotient by 100, and that is the
  exact percentage rounded to the nearest integer, a half going up, but for the four
  fractions 29/200, 57/200, 113/200 and 23/40 of on-time completions: there the exact
  percentage is a half-integer (14.5, 28.5, 56.5, 57.5), the double product falls just
  below it, and the rate is the integer below (14, 28, 56, 57). A collection with
  3 on-time completions among 4 completions and with 1 abandoned task has the rate 60.
\<close>

theorem successRate_rounds:
  assumes "length ts < 2 ^ 32"
    and "completions = length (filter completed ts)"
    and "abandonments = length (filter (\<lambda>t. deleted t = Some True) ts)"
    and "onTimeCompletions =
           length (filter (\<lambda>t. completed t \<and> completedOnTime t \<noteq> Some False) ts)"
    and "x = (of_nat onTimeCompletions / of_nat (completions + abandonments) :: rat)"
  shows "successRate ts =
           (if completions + abandonments = 0 then 100
            else round (x * 100)
                 - (if x \<in> {29 / 200, 57 / 200, 113 / 200, 23 / 40} then 1 else 0))
       \<and> (onTimeCompletions = 3 \<and> completions = 4 \<and> abandonments = 1 \<longrightarrow>
            successRate ts = 60)"
proof -
  let ?n = "completions + abandonments"
  have s: "successRate ts = (if 0 < ?n then percent onTimeCompletions ?n else 100)"
    by (simp only: successRate_def Let_def completedTasks_def abandonedTasks_def
          onTimeQuests_def onTimeTask_fun assms(2,3,4))
  have k: "onTimeCompletions \<le> ?n"
    using onTime_le_completed [of ts] by (simp add: assms(2,4))
  have "completions \<le> length ts" "abandonments \<le> length ts"
    by (simp_all add: assms(2,3))
  then have n: "?n < 2 ^ 33" using assms(1) by simp
  have main: "successRate ts =
           (if ?n = 0 then 100
            else round (x * 100)
                 - (if x \<in> {29 / 200, 57 / 200, 113 / 200, 23 / 40} then 1 else 0))"
  proof (cases "?n = 0")
    case True
    then show ?thesis by (simp add: s)
  next
    case False
    then have p: "0 < ?n" by simp
    have "successRate ts = percent onTimeCompletions ?n" using p by (simp only: s if_True)
    also have "\<dots> = round (x * 100)
                 - (if x \<in> {29 / 200, 57 / 200, 113 / 200, 23 / 40} then 1 else 0)"
      unfolding assms(5) by (rule percent_exact [OF p k n])
    finally show ?thesis using False by (simp only: if_False)
  qed
  have ex: "successRate ts = 60"
    if "onTimeCompletions = 3 \<and> completions = 4 \<and> abandonments = 1"
  proof -
    have x: "x = 3 / 5" using that by (simp add: assms(5))
    have "round (3 / 5 * 100 :: rat) = 60" unfolding round_def by (rule floor_unique) simp_all
    then show ?thesis using that unfolding main x by simp
  qed
  show ?thesis using main ex by blast
qed

theorem successRate_rounds_witness:
  "length mixed_tasks < 2 ^ 32
   \<and> length (filter completed mixed_tasks) = 4
   \<and> length (filter (\<lambda>t. deleted t = Some True) mixed_tasks) = 1
   \<and> length (filter (\<lambda>t. completed t \<and> completedOnTime t \<noteq> Some False) mixed_tasks) = 3
   \<and> successRate mixed_tasks = 60"
proof -
  have h0: "length mixed_tasks < 2 ^ 32" by (simp add: mixed_tasks_def)
  have h: "length (filter (\<lambda>t. completed t \<and> completedOnTime t \<noteq> Some False) mixed_tasks) = 3
           \<and> length (filter completed mixed_tasks) = 4
           \<and> length (filter (\<lambda>t. deleted t = Some True) mixed_tasks) = 1"
    by (simp add: mixed_tasks_def quest_def)
  from successRate_rounds [OF h0 refl refl refl refl, THEN conjunct2] h h0
  show ?thesis by blast
qed

text \<open>
  C4 as stated fails on 23 on-time completions and 17 abandoned quests: the exact
  percentage is 57.5, which rounds to 58, and the rate computed is 57.
\<close>

theorem successRate_double_counterexample:
  "length (filter completed drift_tasks) = 23
   \<and> length (filter (\<lambda>t. deleted t = Some True) drift_tasks) = 17
   \<and> length (filter (\<lambda>t. completed t \<and> completedOnTime t \<noteq> Some False) drift_tasks) = 23
   \<and> successRate drift_tasks = 57
   \<and> round ((23 / (23 + 17)) * 100 :: rat) = 58"
proof -
  have c: "completedTasks drift_tasks = 23" "abandonedTasks drift_tasks = 17"
    "onTimeQuests drift_tasks = 23"
    by (simp_all add: completedTasks_def abandonedTasks_def onTimeQuests_def onTimeTask_def
          drift_tasks_def quest_def)
  have s: "successRate drift_tasks = 57"
    by (simp add: successRate_def c percent_23_40)
  have r: "round ((23 / (23 + 17)) * 100 :: rat) = 58"
    unfolding round_def by (rule floor_unique) simp_all
  from c s r show ?thesis
    by (simp add: completedTasks_def abandonedTasks_def onTimeQuests_def onTimeTask_fun)
qed

section \<open>Startup load\<close>

text \<open>
  What the recovery callback of the initializer does to one task: nothing when the id or
  the title is missing; for a running task with a last tick, the time since the last tick is
  added to the time spent (0 for a time spent that is not a number) unless it is not positive
  or a year or more, and the last tick becomes \<open>now\<close>; for any other task, a time spent
  that is not a number becomes 0.
\<close>

lemma recoverTask_missing: "id_task t = [] \<or> title t = [] \<Longrightarrow> recoverTask now t = t"
  by (simp add: recoverTask_def)

lemma safeDelta_ms:
  "(if (of_int ms :: rat) / 1000 > 0 \<and> (of_int ms :: rat) / 1000 < 31536000
    then (of_int ms :: rat) / 1000 else 0) =
   (if 0 < ms \<and> ms < 31536000000 then of_int ms / 1000 else 0)"
proof -
  have a: "((of_int ms :: rat) / 1000 > 0) = (0 < ms)" by simp
  have "((of_int ms :: rat) / 1000 < 31536000) = ((of_int ms :: rat) < of_int 31536000000)"
    by (simp add: field_simps)
  then have b: "((of_int ms :: rat) / 1000 < 31536000) = (ms < 31536000000)"
    by (simp only: of_int_less_iff)
  show ?thesis by (simp only: a b)
qed

lemma recoverTask_running:
  assumes "id_task t \<noteq> []" and "title t \<noteq> []"
    and "isRunning t = Some True" and "lastUpdated t = Some l" and "l \<noteq> 0"
  shows "recoverTask now t =
     t\<lparr>timeSpent := Some (Num ((case timeSpent t of Some (Num v) \<Rightarrow> v | _ \<Rightarrow> 0)
                             + (if 0 < now - l \<and> now - l < 31536000000
                                then of_int (now - l) / 1000 else 0))),
       lastUpdated := Some now\<rparr>"
  unfolding recoverTask_def Let_def safeDelta_ms
  by (simp only: assms simp_thms if_False if_True prod.case option.case bool.case)

lemma recoverTask_idle:
  assumes "id_task t \<noteq> []" and "title t \<noteq> []" and "isRunning t \<noteq> Some True"
  shows "recoverTask now t =
     (case timeSpent t of Some (Num v) \<Rightarrow> t | _ \<Rightarrow> t\<lparr>timeSpent := Some (Num 0)\<rparr>)"
  using assms by (simp add: recoverTask_def split: option.splits bool.splits)

text \<open>
  Whatever is stored, the engine starts with the stored array as it is, with a value that
  is not an array, or with the empty list: the initializer's recovery never reaches stored
  tasks, because \<open>usePersistent\<close> calls the initializer only when nothing readable is stored.
\<close>

lemma loadTasks_cases:
  "loadTasks item now =
     (case item of TaskArray ts \<Rightarrow> Tasks ts | NonArray \<Rightarrow> OtherValue | _ \<Rightarrow> Tasks [])"
  by (simp add: loadTasks_def usePersistent_def tasksInitializer_def split: StoredItem.splits)

text \<open>
  C5 at a failing input. A stored quest with a running stopwatch, 10 seconds spent and the
  last tick 5 seconds before the load: the recovery of the initializer would give 15 seconds
  and move \<open>lastUpdated\<close> to the time of the load, but the load returns the quest unchanged.
\<close>

theorem loadTasks_skips_recovery:
  "loadTasks (TaskArray [running_quest]) 1704067205000 = Tasks [running_quest]
   \<and> tasksInitializer (TaskArray [running_quest]) 1704067205000 =
       [running_quest\<lparr>timeSpent := Some (Num 15), lastUpdated := Some 1704067205000\<rparr>]
   \<and> timeSpent running_quest = Some (Num 10)
   \<and> lastUpdated running_quest = Some 1704067200000"
  by (simp add: loadTasks_def usePersistent_def tasksInitializer_def recoverTask_def
        running_quest_def quest_def)

section \<open>Monk Mode: failure on a low session rate\<close>


lemma monkActive_deactivate: "\<not> monkActive (deactivate s)"
  by (simp add: monkActive_def deactivate_def split: option.splits)







section \<open>Monk Mode: milestones and completion\<close>






section \<open>Monk Mode: the breach button\<close>

lemma breachClickAt_arm:
  "\<not> confirmBreach p \<Longrightarrow>
   breachClickAt t p = (runTimers t p)\<lparr>confirmBreach := True, breachTimeout := Some (t + 3000)\<rparr>"
  by (simp add: breachClickAt_def handleBreachClick_def runTimers_def split: option.splits)

lemma breachClickAt_rearm:
  "\<not> confirmBreach (runTimers t p) \<Longrightarrow>
   breachClickAt t p = (runTimers t p)\<lparr>confirmBreach := True, breachTimeout := Some (t + 3000)\<rparr>"
  by (simp add: breachClickAt_def handleBreachClick_def)

lemma breachClickAt_commit:
  "confirmBreach (runTimers t p) \<Longrightarrow>
   breachClickAt t p =
     (runTimers t p)\<lparr>stats := deactivate (stats (runTimers t p)), confirmBreach := False\<rparr>"
  by (simp add: breachClickAt_def handleBreachClick_def)

lemma stats_runTimers: "stats (runTimers t p) = stats p"
  by (simp add: runTimers_def split: option.splits)

text \<open>
  C8. With Monk Mode active and the button not armed, a click at time \<open>t1\<close> arms the
  button, starts a timer for \<open>t1 + 3000\<close> ms and leaves Monk Mode active. A second click
  at a time \<open>t2\<close> inside the window deactivates Monk Mode. With no second click, once the
  clock has reached \<open>t1 + 3000\<close> the timer has disarmed the button and Monk Mode is still
  active; a click after the window only arms the button again.
\<close>

theorem breach_two_step:
  assumes "monkActive (stats p)" and "\<not> confirmBreach p"
  shows "monkActive (stats (breachClickAt t1 p))
       \<and> confirmBreach (breachClickAt t1 p)
       \<and> breachTimeout (breachClickAt t1 p) = Some (t1 + 3000)
       \<and> (t1 \<le> t2 \<and> t2 < t1 + 3000 \<longrightarrow>
             \<not> monkActive (stats (breachClickAt t2 (breachClickAt t1 p))))
       \<and> (t1 + 3000 \<le> t3 \<longrightarrow>
             \<not> confirmBreach (runTimers t3 (breachClickAt t1 p))
             \<and> monkActive (stats (runTimers t3 (breachClickAt t1 p))))
       \<and> (t1 + 3000 < t4 \<longrightarrow>
             monkActive (stats (breachClickAt t4 (breachClickAt t1 p)))
             \<and> confirmBreach (breachClickAt t4 (breachClickAt t1 p)))"
proof -
  let ?p1 = "breachClickAt t1 p"
  have p1: "?p1 = (runTimers t1 p)\<lparr>confirmBreach := True, breachTimeout := Some (t1 + 3000)\<rparr>"
    by (rule breachClickAt_arm [OF assms(2)])
  have a: "monkActive (stats ?p1)" unfolding p1 using assms(1) by (simp add: stats_runTimers)
  have b: "confirmBreach ?p1" unfolding p1 by simp
  have c: "breachTimeout ?p1 = Some (t1 + 3000)" unfolding p1 by simp
  have d: "\<not> monkActive (stats (breachClickAt t2 ?p1))" if "t1 \<le> t2 \<and> t2 < t1 + 3000"
  proof -
    have r: "runTimers t2 ?p1 = ?p1" using that c by (simp add: runTimers_def)
    have "confirmBreach (runTimers t2 ?p1)" unfolding r by (rule b)
    from breachClickAt_commit [OF this]
    have "stats (breachClickAt t2 ?p1) = deactivate (stats (runTimers t2 ?p1))" by simp
    then show ?thesis by (simp only: monkActive_deactivate not_False_eq_True)
  qed
  have e: "\<not> confirmBreach (runTimers t3 ?p1) \<and> monkActive (stats (runTimers t3 ?p1))"
    if "t1 + 3000 \<le> t3"
  proof -
    have "runTimers t3 ?p1 = ?p1\<lparr>confirmBreach := False, breachTimeout := None\<rparr>"
      using that c by (simp add: runTimers_def)
    then show ?thesis using a by simp
  qed
  have f: "monkActive (stats (breachClickAt t4 ?p1)) \<and> confirmBreach (breachClickAt t4 ?p1)"
    if "t1 + 3000 < t4"
  proof -
    have r: "runTimers t4 ?p1 = ?p1\<lparr>confirmBreach := False, breachTimeout := None\<rparr>"
      using that c by (simp add: runTimers_def)
    have nc: "\<not> confirmBreach (runTimers t4 ?p1)" unfolding r by simp
    have st: "stats (runTimers t4 ?p1) = stats ?p1" by (rule stats_runTimers)
    have "breachClickAt t4 ?p1 =
            (runTimers t4 ?p1)\<lparr>confirmBreach := True, breachTimeout := Some (t4 + 3000)\<rparr>"
      by (rule breachClickAt_rearm [OF nc])
    then show ?thesis using a st by simp
  qed
  from a b c d e f show ?thesis by blast
qed

theorem breach_two_step_witness:
  "monkActive (stats profile0) \<and> \<not> confirmBreach profile0
   \<and> monkActive (stats (breachClickAt 0 profile0))
   \<and> \<not> monkActive (stats (breachClickAt 1000 (breachClickAt 0 profile0)))
   \<and> \<not> confirmBreach (runTimers 3000 (breachClickAt 0 profile0))
   \<and> monkActive (stats (runTimers 3000 (breachClickAt 0 profile0)))
   \<and> monkActive (stats (breachClickAt 3001 (breachClickAt 0 profile0)))"
proof -
  have h1: "monkActive (stats profile0)"
    by (simp add: monkActive_def profile0_def monk7_def)
  have h2: "\<not> confirmBreach profile0" by (simp add: profile0_def)
  from breach_two_step [OF h1 h2, of 0 1000 3000 3001] h1 h2 show ?thesis by simp
qed

section \<open>Import of a save file\<close>

text \<open>
  C9. A save document without the \<open>tasks\<close> field is rejected: the failure alert is shown,
  the page is not reloaded, and the store (tasks, user stats, guild) is what it was, whether
  or not the user would have confirmed and whatever the other two fields hold.
\<close>

theorem handleImport_missing_tasks:
  "handleImport (SaveDoc None data_user data_guild) confirmed db =
     \<lparr>store = db, shown = [ImportFailed], reloaded = False\<rparr>"
  by (simp add: handleImport_def)

section \<open>Soft delete\<close>

lemma tasks_confirmDelete:
  "taskToDelete d = Some ident \<Longrightarrow> ident \<noteq> [] \<Longrightarrow>
   tasks (confirmDelete toISOString now d) =
     map (\<lambda>t. if id_task t = ident
               then t\<lparr>deleted := Some True, completedAt := Some (toISOString now),
                      isRunning := Some False, lastUpdated := None\<rparr>
               else t) (tasks d)"
  by (simp add: confirmDelete_def)

lemma inSession_stamped:
  "completedAt t = Some ca \<Longrightarrow> ca \<noteq> [] \<Longrightarrow> getTime ca = Some c \<Longrightarrow>
   deleted t = Some True \<Longrightarrow> inSession getTime start t = (start < c)"
  by (simp add: inSession_def)

lemma dayTasks_member:
  "completedAt t = Some ca \<Longrightarrow> ca \<noteq> [] \<Longrightarrow> getTime ca = Some c \<Longrightarrow>
   (t \<in> set (dayTasks getTime dayStart dayEnd ts)) =
     (t \<in> set ts \<and> dayStart \<le> c \<and> c \<le> dayEnd)"
  by (simp add: dayTasks_def)

text \<open>
  C10. Confirming the delete of a pending id at time \<open>now\<close> keeps the length of the task
  list. At every position, a task of another id is unchanged, and a task of that id is the
  old task with \<open>deleted = true\<close>, \<open>completedAt\<close> the stamp of \<open>now\<close>, \<open>isRunning = false\<close>
  and \<open>lastUpdated\<close> cleared, so that its id, title, description, exp, priority, timeSpent
  and completed flag are the old ones. Where the platform reads the stamp of \<open>now\<close> back
  as \<open>now\<close>, the deleted task counts for a Monk Mode session exactly when the session
  started before \<open>now\<close>, and for a day of the graph exactly when \<open>now\<close> lies in that day.
\<close>

theorem confirmDelete_frame:
  assumes "taskToDelete d = Some ident" and "ident \<noteq> []"
    and "d' = confirmDelete toISOString now d"
  shows "length (tasks d') = length (tasks d)
     \<and> (\<forall>i < length (tasks d).
          (id_task (tasks d ! i) \<noteq> ident \<longrightarrow> tasks d' ! i = tasks d ! i)
        \<and> (id_task (tasks d ! i) = ident \<longrightarrow>
             tasks d' ! i = (tasks d ! i)\<lparr>deleted := Some True,
                 completedAt := Some (toISOString now), isRunning := Some False,
                 lastUpdated := None\<rparr>
           \<and> deleted (tasks d' ! i) = Some True
           \<and> completedAt (tasks d' ! i) = Some (toISOString now)
           \<and> isRunning (tasks d' ! i) = Some False
           \<and> lastUpdated (tasks d' ! i) = None
           \<and> id_task (tasks d' ! i) = id_task (tasks d ! i)
           \<and> title (tasks d' ! i) = title (tasks d ! i)
           \<and> description (tasks d' ! i) = description (tasks d ! i)
           \<and> exp_task (tasks d' ! i) = exp_task (tasks d ! i)
           \<and> priority (tasks d' ! i) = priority (tasks d ! i)
           \<and> timeSpent (tasks d' ! i) = timeSpent (tasks d ! i)
           \<and> completed (tasks d' ! i) = completed (tasks d ! i)
           \<and> (toISOString now \<noteq> [] \<and> getTime (toISOString now) = Some now \<longrightarrow>
                inSession getTime start (tasks d' ! i) = (start < now)
              \<and> (tasks d' ! i \<in> set (dayTasks getTime dayStart dayEnd (tasks d'))) =
                  (dayStart \<le> now \<and> now \<le> dayEnd))))"
proof (intro conjI allI impI)
  let ?f = "\<lambda>t. if id_task t = ident
               then t\<lparr>deleted := Some True, completedAt := Some (toISOString now),
                      isRunning := Some False, lastUpdated := None\<rparr>
               else t"
  have ts: "tasks d' = map ?f (tasks d)"
    unfolding assms(3) by (rule tasks_confirmDelete [OF assms(1,2)])
  show len: "length (tasks d') = length (tasks d)" unfolding ts by simp
  fix i assume i: "i < length (tasks d)"
  have nth: "tasks d' ! i = ?f (tasks d ! i)" unfolding ts using i by (rule nth_map)
  show "tasks d' ! i = tasks d ! i" if "id_task (tasks d ! i) \<noteq> ident"
    unfolding nth using that by simp
  assume eq: "id_task (tasks d ! i) = ident"
  show upd: "tasks d' ! i = (tasks d ! i)\<lparr>deleted := Some True,
                 completedAt := Some (toISOString now), isRunning := Some False,
                 lastUpdated := None\<rparr>"
    unfolding nth using eq by simp
  show "deleted (tasks d' ! i) = Some True" unfolding upd by simp
  show "completedAt (tasks d' ! i) = Some (toISOString now)" unfolding upd by simp
  show "isRunning (tasks d' ! i) = Some False" unfolding upd by simp
  show "lastUpdated (tasks d' ! i) = None" unfolding upd by simp
  show "id_task (tasks d' ! i) = id_task (tasks d ! i)" unfolding upd by simp
  show "title (tasks d' ! i) = title (tasks d ! i)" unfolding upd by simp
  show "description (tasks d' ! i) = description (tasks d ! i)" unfolding upd by simp
  show "exp_task (tasks d' ! i) = exp_task (tasks d ! i)" unfolding upd by simp
  show "priority (tasks d' ! i) = priority (tasks d ! i)" unfolding upd by simp
  show "timeSpent (tasks d' ! i) = timeSpent (tasks d ! i)" unfolding upd by simp
  show "completed (tasks d' ! i) = completed (tasks d ! i)" unfolding upd by simp
  assume rt: "toISOString now \<noteq> [] \<and> getTime (toISOString now) = Some now"
  have ca: "completedAt (tasks d' ! i) = Some (toISOString now)" unfolding upd by simp
  have del: "deleted (tasks d' ! i) = Some True" unfolding upd by simp
  show "inSession getTime start (tasks d' ! i) = (start < now)"
    using inSession_stamped [OF ca _ _ del] rt by blast
  have mem: "tasks d' ! i \<in> set (tasks d')" using i len by simp
  show "(tasks d' ! i \<in> set (dayTasks getTime dayStart dayEnd (tasks d'))) =
                  (dayStart \<le> now \<and> now \<le> dayEnd)"
    using dayTasks_member [OF ca, of getTime now dayStart dayEnd "tasks d'"] rt mem by blast
qed

text \<open>
  Two quests, the first abandoned on 5 January 2024: the second is untouched, and the first
  counts for a session started on 1 January.
\<close>

theorem confirmDelete_frame_witness:
  "taskToDelete (initiateDelete ''1'' (board [quest ''1'', quest ''2''])) = Some ''1''
   \<and> ''1'' \<noteq> []
   \<and> sample_toISOString 1704412800000 \<noteq> []
   \<and> sample_getTime (sample_toISOString 1704412800000) = Some 1704412800000
   \<and> length (tasks (confirmDelete sample_toISOString 1704412800000
                (initiateDelete ''1'' (board [quest ''1'', quest ''2''])))) = 2
   \<and> tasks (confirmDelete sample_toISOString 1704412800000
                (initiateDelete ''1'' (board [quest ''1'', quest ''2'']))) ! 1 = quest ''2''
   \<and> deleted (tasks (confirmDelete sample_toISOString 1704412800000
                (initiateDelete ''1'' (board [quest ''1'', quest ''2'']))) ! 0) = Some True
   \<and> inSession sample_getTime 1704067200000
        (tasks (confirmDelete sample_toISOString 1704412800000
                (initiateDelete ''1'' (board [quest ''1'', quest ''2'']))) ! 0)"
proof -
  let ?d = "initiateDelete ''1'' (board [quest ''1'', quest ''2''])"
  have h1: "taskToDelete ?d = Some ''1''" by (simp add: initiateDelete_def)
  have h2: "''1'' \<noteq> []" by simp
  have r1: "sample_toISOString 1704412800000 \<noteq> []" by (simp add: sample_toISOString_def)
  have r2: "sample_getTime (sample_toISOString 1704412800000) = Some 1704412800000"
    by (simp add: sample_toISOString_def sample_getTime_def)
  have t: "tasks ?d = [quest ''1'', quest ''2'']" by (simp add: initiateDelete_def board_def)
  note F = confirmDelete_frame [OF h1 h2 refl,
      of sample_toISOString 1704412800000 sample_getTime 1704067200000 0 0]
  from F have len: "length (tasks (confirmDelete sample_toISOString 1704412800000 ?d)) = 2"
    unfolding t by simp
  have l0: "0 < length (tasks ?d)" and l1: "1 < length (tasks ?d)"
    unfolding t by simp_all
  have i0: "id_task (tasks ?d ! 0) = ''1''" and i1: "id_task (tasks ?d ! 1) \<noteq> ''1''"
    unfolding t by (simp_all add: quest_def)
  from F [THEN conjunct2, rule_format, OF l1, THEN conjunct1, rule_format, OF i1]
  have second: "tasks (confirmDelete sample_toISOString 1704412800000 ?d) ! 1 = quest ''2''"
    unfolding t by simp
  note F0 = F [THEN conjunct2, rule_format, OF l0, THEN conjunct2, rule_format, OF i0]
  from F0 have del:
    "deleted (tasks (confirmDelete sample_toISOString 1704412800000 ?d) ! 0) = Some True"
    by blast
  from F0 r1 r2 have
    "inSession sample_getTime 1704067200000
       (tasks (confirmDelete sample_toISOString 1704412800000 ?d) ! 0) =
     ((1704067200000 :: int) < 1704412800000)"
    by blast
  then have ins: "inSession sample_getTime 1704067200000
       (tasks (confirmDelete sample_toISOString 1704412800000 ?d) ! 0)"
    by simp
  from del ins have first:
    "deleted (tasks (confirmDelete sample_toISOString 1704412800000 ?d) ! 0) = Some True
     \<and> inSession sample_getTime 1704067200000
          (tasks (confirmDelete sample_toISOString 1704412800000 ?d) ! 0)"
    by blast
  from h1 h2 r1 r2 len second first show ?thesis by blast
qed

end
